theory Spec2Isabelle
  imports Main "HOL-Library.Char_ord" "HOL-Library.List_Lexorder" "HOL-Library.Sublist"
begin

section \<open>The PostgreSQL adapter of cosmosmetric\<close>

text \<open>
  This theory embeds \<^verbatim>\<open>ignite/pkg/cosmosmetric/adapter/postgres/postgres.go\<close>.
  The adapter talks to a PostgreSQL server through Go's \<^verbatim>\<open>database/sql\<close>. The server
  is modelled as an explicit state (\<open>pg\<close>): the committed tables, the rows written by the
  open SQL transaction and not yet committed, and the list of the statements that changed
  or tried to change the store. Every Go function that returns \<^verbatim>\<open>(value, error)\<close> returns a
  pair whose error component is an \<open>error option\<close> (\<open>None\<close> is Go's \<^verbatim>\<open>nil\<close>); a function
  that touches the database also returns the new database state.
\<close>

subsection \<open>Errors\<close>

text \<open>
  \<open>ErrNew msg\<close> is an error value with the message \<open>msg\<close> (\<^verbatim>\<open>errors.New\<close>, \<^verbatim>\<open>fmt.Errorf\<close>
  without \<^verbatim>\<open>%w\<close>, or an error of a collaborator). \<open>ErrWrap p e\<close> is
  \<^verbatim>\<open>fmt.Errorf(p + "%w", e)\<close>: the error \<open>e\<close> wrapped behind the text \<open>p\<close>.
\<close>

datatype error = ErrNew string | ErrWrap string error

fun Error :: "error \<Rightarrow> string" where
  "Error (ErrNew msg) = msg"
| "Error (ErrWrap p e) = p @ Error e"

fun Unwrap :: "error \<Rightarrow> error option" where
  "Unwrap (ErrNew msg) = None"
| "Unwrap (ErrWrap p e) = Some e"

definition ErrClosed :: error where
  "ErrClosed = ErrNew ''no database connection''"

subsection \<open>Formatting\<close>

text \<open>\<^verbatim>\<open>fmt.Sprintf("%d", n)\<close> for an unsigned \<open>n\<close>: the decimal digits, most significant first.\<close>

definition digit :: "nat \<Rightarrow> char" where
  "digit n = ''0123456789'' ! n"

fun fmt_d :: "nat \<Rightarrow> string" where
  "fmt_d n = (if n < 10 then [digit n] else fmt_d (n div 10) @ [digit (n mod 10)])"

declare fmt_d.simps [simp del]

subsection \<open>Constants\<close>

definition adapterType :: string where
  "adapterType = ''postgres''"

definition defaultPort :: nat where
  "defaultPort = 5432"

definition defaultHost :: string where
  "defaultHost = ''127.0.0.1''"

definition queryInsertTX :: string where
  "queryInsertTX = ''INSERT INTO tx (hash, index, height, block_time) VALUES ($1, $2, $3, $4)''"

definition queryInsertAttr :: string where
  "queryInsertAttr =
     ''INSERT INTO attribute (tx_hash, event_type, event_index, name, value) VALUES ($1, $2, $3, $4, $5)''"

text \<open>Latest schema version that the adapter should apply.\<close>

definition schemaVersion :: nat where
  "schemaVersion = 1"

subsection \<open>The database\<close>

text \<open>
  The rows of the two data tables, one field per column of the insert statements. The
  height is Go's \<^verbatim>\<open>int64\<close> and the index its \<^verbatim>\<open>uint32\<close>; the adapter stores and
  compares them and never computes with them, so they are integers here. \<open>block_time\<close> is a timestamp.
\<close>

record tx_row =
  col_hash :: string
  col_index :: nat
  col_height :: int
  col_block_time :: int

record attr_row =
  col_tx_hash :: string
  col_event_type :: string
  col_event_index :: nat
  col_name :: string
  col_value :: string

datatype row = TxRow tx_row | AttrRow attr_row

text \<open>
  The committed tables. \<open>schema_tab\<close> is the version-tracking table \<^verbatim>\<open>schema\<close>: \<open>None\<close>
  when the table does not exist, otherwise the versions it records.
\<close>

record store =
  schema_tab :: "nat list option"
  tx_tab :: "tx_row list"
  attr_tab :: "attr_row list"

text \<open>The statements that write, in the order the adapter issues them.\<close>

datatype stmt =
    StExec string
  | StBegin
  | StPrepare string
  | StInsert row
  | StCommit
  | StRollback

text \<open>
  \<open>tables\<close> is what readers see. \<open>pending\<close> is \<open>Some rows\<close> while a SQL transaction is open,
  \<open>rows\<close> being its uncommitted inserts in order, and \<open>None\<close> otherwise. \<open>stmts\<close> is the
  history of the writing statements (read-only queries are not recorded).
\<close>

record pg =
  tables :: store
  pending :: "row list option"
  stmts :: "stmt list"

subsection \<open>Transactions, events, attributes\<close>

text \<open>
  \<^verbatim>\<open>cosmosclient.TX\<close> and the events decoded from it are declared outside this file. The
  adapter reads \<^verbatim>\<open>tx.Raw.Hash.String()\<close>, \<^verbatim>\<open>tx.Raw.Index\<close>, \<^verbatim>\<open>tx.Raw.Height\<close> and
  \<^verbatim>\<open>tx.BlockTime\<close>; \<open>Payload\<close> stands for the rest of the raw result, from which the events
  are decoded. An attribute value is any Go value (\<^verbatim>\<open>interface{}\<close>).
\<close>

datatype gvalue =
    GNil
  | GBool bool
  | GInt int
  | GString string
  | GList "gvalue list"
  | GChan

record Attribute =
  Key :: string
  Value :: gvalue

record Event =
  Type :: string
  Attributes :: "Attribute list"

record TX =
  Hash :: string
  Index :: nat
  Height :: int
  BlockTime :: int
  Payload :: string

subsection \<open>Collaborators\<close>

text \<open>
  What the adapter calls and this file does not define:
  \<^item> \<open>fsSchemas\<close>: the embedded directory \<^verbatim>\<open>schemas/*\<close>, as \<^verbatim>\<open>ReadFile\<close>;
  \<^item> \<open>execScript\<close>: the effect of executing a migration script on the committed tables
    (a script that fails may still have changed them);
  \<^item> \<open>refuses\<close>: the server's verdict on a writing statement, given the committed tables
    and the uncommitted rows of the open transaction (\<open>None\<close>: accepted);
  \<^item> \<open>UnmarshallEvents\<close>: \<^verbatim>\<open>cosmosclient.UnmarshallEvents\<close>;
  \<^item> \<open>json_Marshal\<close>: \<^verbatim>\<open>encoding/json.Marshal\<close>.
\<close>

record env =
  fsSchemas :: "string \<Rightarrow> error + string"
  execScript :: "string \<Rightarrow> store \<Rightarrow> error option \<times> store"
  refuses :: "store \<Rightarrow> row list \<Rightarrow> stmt \<Rightarrow> error option"
  UnmarshallEvents :: "TX \<Rightarrow> error + Event list"
  json_Marshal :: "gvalue \<Rightarrow> error + string"

subsection \<open>The adapter\<close>

datatype sqlDB = SqlDB string

record Adapter =
  host :: string
  user :: string
  password :: string
  database :: string
  port :: nat
  params :: "(string \<times> string) list option"
  db :: "sqlDB option"

definition GetType :: "Adapter \<Rightarrow> string" where
  "GetType a = adapterType"

definition getDB :: "Adapter \<Rightarrow> sqlDB option \<times> error option" where
  "getDB a = (case db a of None \<Rightarrow> (None, Some ErrClosed) | Some h \<Rightarrow> (Some h, None))"

subsection \<open>Reading\<close>

text \<open>
  The read-only queries are answered from the committed tables.
  \<^verbatim>\<open>SELECT MAX(c) FROM t\<close> answers one row: SQL's \<^verbatim>\<open>NULL\<close> (\<open>None\<close>) over no rows, the
  greatest value otherwise. (The adapter asks for the greatest version only behind the
  check that the version table exists.)
\<close>

fun sql_max :: "('a::linorder) list \<Rightarrow> 'a option" where
  "sql_max [] = None"
| "sql_max (x # xs) = Some (fold max xs x)"

text \<open>
  \<^verbatim>\<open>Row.Scan\<close> into a Go integer: a \<^verbatim>\<open>NULL\<close> cannot be converted, and the destination
  is left as it was.
\<close>

definition Scan_null :: error where
  "Scan_null = ErrNew ''sql: Scan error on column index 0: converting NULL is unsupported''"

definition Scan :: "'a option \<Rightarrow> 'a \<Rightarrow> 'a \<times> error option" where
  "Scan col dest = (case col of None \<Rightarrow> (dest, Some Scan_null) | Some v \<Rightarrow> (v, None))"

definition querySchemaExists :: "store \<Rightarrow> bool option" where
  "querySchemaExists st = Some (schema_tab st \<noteq> None)"

definition querySchemaVersion :: "store \<Rightarrow> nat option" where
  "querySchemaVersion st = (case schema_tab st of None \<Rightarrow> None | Some vs \<Rightarrow> sql_max vs)"

definition queryBlockHeight :: "store \<Rightarrow> int option" where
  "queryBlockHeight st = sql_max (map col_height (tx_tab st))"

definition GetLatestHeight :: "Adapter \<Rightarrow> pg \<Rightarrow> int \<times> error option" where
  "GetLatestHeight a d =
     (case getDB a of
        (_, Some err) \<Rightarrow> (0, Some err)
      | (_, None) \<Rightarrow>
          (case Scan (queryBlockHeight (tables d)) 0 of
             (_, Some err) \<Rightarrow> (0, Some err)
           | (height, None) \<Rightarrow> (height, None)))"

definition getSchemaVersion :: "Adapter \<Rightarrow> pg \<Rightarrow> nat \<times> error option" where
  "getSchemaVersion a d =
     (case getDB a of
        (_, Some err) \<Rightarrow> (0, Some err)
      | (_, None) \<Rightarrow>
          (case Scan (querySchemaExists (tables d)) False of
             (_, Some err) \<Rightarrow> (0, Some err)
           | (exists, None) \<Rightarrow>
               if \<not> exists then (0, None)
               else
                 (case Scan (querySchemaVersion (tables d)) 0 of
                    (_, Some err) \<Rightarrow> (0, Some err)
                  | (version, None) \<Rightarrow> (version, None))))"

subsection \<open>Schema migrations\<close>

definition ExecContext :: "env \<Rightarrow> string \<Rightarrow> pg \<Rightarrow> error option \<times> pg" where
  "ExecContext E script d =
     (case execScript E script (tables d) of
        (r, st) \<Rightarrow> (r, d\<lparr>tables := st, stmts := stmts d @ [StExec script]\<rparr>))"

definition applySchema :: "env \<Rightarrow> Adapter \<Rightarrow> string \<Rightarrow> pg \<Rightarrow> error option \<times> pg" where
  "applySchema E a filename d =
     (case fsSchemas E (''schemas/'' @ filename) of
        Inl err \<Rightarrow> (Some err, d)
      | Inr script \<Rightarrow>
          (case getDB a of
             (_, Some err) \<Rightarrow> (Some err, d)
           | (_, None) \<Rightarrow> ExecContext E script d))"

text \<open>
  The loop of \<^verbatim>\<open>SetupSchema\<close>, from the counter \<open>i\<close> up to the target version. The counter
  is a Go \<^verbatim>\<open>uint\<close>; it stays at or below the target plus one, so it does not wrap.
\<close>

function SetupSchema_loop :: "env \<Rightarrow> Adapter \<Rightarrow> nat \<Rightarrow> nat \<Rightarrow> pg \<Rightarrow> error option \<times> pg" where
  "SetupSchema_loop E a target i d =
     (if i \<le> target then
        (let name = fmt_d i @ ''.sql'' in
           case applySchema E a name d of
             (Some err, d') \<Rightarrow> (Some (ErrWrap (''error applying schema '' @ name @ '': '') err), d')
           | (None, d') \<Rightarrow> SetupSchema_loop E a target (i + 1) d')
      else (None, d))"
  by pat_completeness auto
termination
  by (relation "measure (\<lambda>(E, a, target, i, d). Suc target - i)") auto

declare SetupSchema_loop.simps [simp del]

text \<open>
  \<^verbatim>\<open>SetupSchema\<close> with the target version as an argument; the adapter's own is the
  instance at the constant \<open>schemaVersion\<close>.
\<close>

definition SetupSchema_to :: "nat \<Rightarrow> env \<Rightarrow> Adapter \<Rightarrow> pg \<Rightarrow> error option \<times> pg" where
  "SetupSchema_to target E a d =
     (case getSchemaVersion a d of
        (_, Some err) \<Rightarrow> (Some (ErrWrap ''failed to read schema version: '' err), d)
      | (current, None) \<Rightarrow>
          if current = target then (None, d)
          else if current > target then
            (Some (ErrNew (''latest schema version is v'' @ fmt_d target @ '', found v'' @ fmt_d current)), d)
          else SetupSchema_loop E a target (current + 1) d)"

definition SetupSchema :: "env \<Rightarrow> Adapter \<Rightarrow> pg \<Rightarrow> error option \<times> pg" where
  "SetupSchema = SetupSchema_to schemaVersion"

subsection \<open>Saving a batch\<close>

text \<open>
  The calls of \<^verbatim>\<open>database/sql\<close> that \<^verbatim>\<open>Save\<close> makes. A refused statement changes nothing
  but the history. A commit, accepted or not, ends the transaction; an accepted one moves
  the uncommitted rows into the tables. \<^verbatim>\<open>Rollback\<close> drops the uncommitted rows, and has
  no effect when the transaction has ended already.
\<close>

definition uncommitted :: "pg \<Rightarrow> row list" where
  "uncommitted d = (case pending d of None \<Rightarrow> [] | Some rs \<Rightarrow> rs)"

primrec tx_rows :: "row list \<Rightarrow> tx_row list" where
  "tx_rows [] = []"
| "tx_rows (r # rs) = (case r of TxRow t \<Rightarrow> t # tx_rows rs | AttrRow _ \<Rightarrow> tx_rows rs)"

primrec attr_rows :: "row list \<Rightarrow> attr_row list" where
  "attr_rows [] = []"
| "attr_rows (r # rs) = (case r of AttrRow t \<Rightarrow> t # attr_rows rs | TxRow _ \<Rightarrow> attr_rows rs)"

definition persist :: "row list \<Rightarrow> store \<Rightarrow> store" where
  "persist rs st = st\<lparr>tx_tab := tx_tab st @ tx_rows rs, attr_tab := attr_tab st @ attr_rows rs\<rparr>"

definition BeginTx :: "env \<Rightarrow> pg \<Rightarrow> error option \<times> pg" where
  "BeginTx E d =
     (case refuses E (tables d) [] StBegin of
        Some err \<Rightarrow> (Some err, d\<lparr>stmts := stmts d @ [StBegin]\<rparr>)
      | None \<Rightarrow> (None, d\<lparr>pending := Some [], stmts := stmts d @ [StBegin]\<rparr>))"

definition PrepareContext :: "env \<Rightarrow> string \<Rightarrow> pg \<Rightarrow> error option \<times> pg" where
  "PrepareContext E query d =
     (refuses E (tables d) (uncommitted d) (StPrepare query),
      d\<lparr>stmts := stmts d @ [StPrepare query]\<rparr>)"

definition Stmt_ExecContext :: "env \<Rightarrow> row \<Rightarrow> pg \<Rightarrow> error option \<times> pg" where
  "Stmt_ExecContext E r d =
     (case refuses E (tables d) (uncommitted d) (StInsert r) of
        Some err \<Rightarrow> (Some err, d\<lparr>stmts := stmts d @ [StInsert r]\<rparr>)
      | None \<Rightarrow>
          (None, d\<lparr>pending := map_option (\<lambda>rs. rs @ [r]) (pending d),
                   stmts := stmts d @ [StInsert r]\<rparr>))"

definition Commit :: "env \<Rightarrow> pg \<Rightarrow> error option \<times> pg" where
  "Commit E d =
     (case refuses E (tables d) (uncommitted d) StCommit of
        Some err \<Rightarrow> (Some err, d\<lparr>pending := None, stmts := stmts d @ [StCommit]\<rparr>)
      | None \<Rightarrow>
          (None, d\<lparr>tables := persist (uncommitted d) (tables d), pending := None,
                   stmts := stmts d @ [StCommit]\<rparr>))"

definition Rollback :: "pg \<Rightarrow> pg" where
  "Rollback d =
     (case pending d of
        None \<Rightarrow> d
      | Some _ \<Rightarrow> d\<lparr>pending := None, stmts := stmts d @ [StRollback]\<rparr>)"

text \<open>The three nested \<^verbatim>\<open>for\<close> statements of \<^verbatim>\<open>Save\<close>, innermost first.\<close>

fun Save_attrs :: "env \<Rightarrow> string \<Rightarrow> string \<Rightarrow> nat \<Rightarrow> Attribute list \<Rightarrow> pg \<Rightarrow> error option \<times> pg" where
  "Save_attrs E hash evtType i [] d = (None, d)"
| "Save_attrs E hash evtType i (attr # attrs) d =
     (case json_Marshal E (Value attr) of
        Inl err \<Rightarrow>
          (Some (ErrWrap (''failed to encode event attribute '' @ [CHR 0x27] @ Key attr @ [CHR 0x27] @ '': '') err), d)
      | Inr v \<Rightarrow>
          (case Stmt_ExecContext E
                  (AttrRow \<lparr>col_tx_hash = hash, col_event_type = evtType, col_event_index = i,
                            col_name = Key attr, col_value = v\<rparr>) d of
             (Some err, d') \<Rightarrow> (Some (ErrWrap ''error saving event attribute: '' err), d')
           | (None, d') \<Rightarrow> Save_attrs E hash evtType i attrs d'))"

fun Save_events :: "env \<Rightarrow> string \<Rightarrow> nat \<Rightarrow> Event list \<Rightarrow> pg \<Rightarrow> error option \<times> pg" where
  "Save_events E hash i [] d = (None, d)"
| "Save_events E hash i (evt # events) d =
     (case Save_attrs E hash (Type evt) i (Attributes evt) d of
        (Some err, d') \<Rightarrow> (Some err, d')
      | (None, d') \<Rightarrow> Save_events E hash (i + 1) events d')"

fun Save_txs :: "env \<Rightarrow> TX list \<Rightarrow> pg \<Rightarrow> error option \<times> pg" where
  "Save_txs E [] d = (None, d)"
| "Save_txs E (tx # txs) d =
     (let hash = Hash tx in
        case Stmt_ExecContext E
               (TxRow \<lparr>col_hash = hash, col_index = Index tx, col_height = Height tx,
                       col_block_time = BlockTime tx\<rparr>) d of
          (Some err, d') \<Rightarrow> (Some (ErrWrap (''error saving transaction '' @ hash @ '': '') err), d')
        | (None, d') \<Rightarrow>
            (case UnmarshallEvents E tx of
               Inl err \<Rightarrow> (Some err, d')
             | Inr events \<Rightarrow>
                 (case Save_events E hash 0 events d' of
                    (Some err, d'') \<Rightarrow> (Some err, d'')
                  | (None, d'') \<Rightarrow> Save_txs E txs d'')))"

text \<open>
  The part of \<^verbatim>\<open>Save\<close> that runs with the SQL transaction open, up to its \<^verbatim>\<open>return\<close>.
  (Closing the two prepared statements does not touch the store and is left out.)
\<close>

definition Save_open :: "env \<Rightarrow> TX list \<Rightarrow> pg \<Rightarrow> error option \<times> pg" where
  "Save_open E txs d =
     (case PrepareContext E queryInsertTX d of
        (Some err, d1) \<Rightarrow> (Some err, d1)
      | (None, d1) \<Rightarrow>
          (case PrepareContext E queryInsertAttr d1 of
             (Some err, d2) \<Rightarrow> (Some err, d2)
           | (None, d2) \<Rightarrow>
               (case Save_txs E txs d2 of
                  (Some err, d3) \<Rightarrow> (Some err, d3)
                | (None, d3) \<Rightarrow> Commit E d3)))"

text \<open>\<^verbatim>\<open>Save\<close>: the deferred \<^verbatim>\<open>Rollback\<close> runs on every return after the transaction began.\<close>

definition Save :: "env \<Rightarrow> Adapter \<Rightarrow> TX list \<Rightarrow> pg \<Rightarrow> error option \<times> pg" where
  "Save E a txs d =
     (case getDB a of
        (_, Some err) \<Rightarrow> (Some err, d)
      | (_, None) \<Rightarrow>
          (case BeginTx E d of
             (Some err, d0) \<Rightarrow> (Some err, d0)
           | (None, d0) \<Rightarrow> (case Save_open E txs d0 of (r, d') \<Rightarrow> (r, Rollback d'))))"

subsection \<open>The connection locator\<close>

text \<open>
  \<^verbatim>\<open>net/url\<close> of Go's standard library, as far as \<^verbatim>\<open>createPostgresURI\<close> uses it: the
  fields of \<^verbatim>\<open>url.URL\<close> it sets, percent-escaping, \<^verbatim>\<open>Userinfo.String\<close>, \<^verbatim>\<open>Values.Set\<close>,
  \<^verbatim>\<open>Values.Encode\<close> and \<^verbatim>\<open>URL.String\<close>.
\<close>

datatype encoding = encodePath | encodeHost | encodeUserPassword | encodeQueryComponent

definition shouldEscape :: "char \<Rightarrow> encoding \<Rightarrow> bool" where
  "shouldEscape c mode =
     (if (CHR ''a'' \<le> c \<and> c \<le> CHR ''z'') \<or> (CHR ''A'' \<le> c \<and> c \<le> CHR ''Z'')
          \<or> (CHR ''0'' \<le> c \<and> c \<le> CHR ''9'') then False
      else if mode = encodeHost \<and> c \<in> set (''!$&()*+,;=:[]<>'' @ [CHR 0x27, CHR 0x22]) then False
      else if c \<in> set ''-_.~'' then False
      else if c \<in> set ''$&+,/:;=?@'' then
        (case mode of
           encodePath \<Rightarrow> c = CHR ''?''
         | encodeUserPassword \<Rightarrow> c = CHR ''@'' \<or> c = CHR ''/'' \<or> c = CHR ''?'' \<or> c = CHR '':''
         | encodeQueryComponent \<Rightarrow> True
         | encodeHost \<Rightarrow> True)
      else True)"

definition upperhex :: "nat \<Rightarrow> char" where
  "upperhex n = ''0123456789ABCDEF'' ! n"

definition escape_char :: "encoding \<Rightarrow> char \<Rightarrow> string" where
  "escape_char mode c =
     (if shouldEscape c mode then
        (if c = CHR '' '' \<and> mode = encodeQueryComponent then ''+''
         else [CHR ''%'', upperhex (of_char c div 16), upperhex (of_char c mod 16)])
      else [c])"

definition escape :: "string \<Rightarrow> encoding \<Rightarrow> string" where
  "escape s mode = concat (map (escape_char mode) s)"

definition QueryEscape :: "string \<Rightarrow> string" where
  "QueryEscape s = escape s encodeQueryComponent"

record Userinfo =
  username :: string
  upassword :: string
  passwordSet :: bool

definition url_User :: "string \<Rightarrow> Userinfo" where
  "url_User u = \<lparr>username = u, upassword = [], passwordSet = False\<rparr>"

definition url_UserPassword :: "string \<Rightarrow> string \<Rightarrow> Userinfo" where
  "url_UserPassword u p = \<lparr>username = u, upassword = p, passwordSet = True\<rparr>"

definition Userinfo_String :: "Userinfo \<Rightarrow> string" where
  "Userinfo_String u =
     (let s = escape (username u) encodeUserPassword in
        if passwordSet u then s @ '':'' @ escape (upassword u) encodeUserPassword else s)"

record URL =
  Scheme :: string
  User :: "Userinfo option"
  Host :: string
  Path :: string
  RawQuery :: string

definition EscapedPath :: "URL \<Rightarrow> string" where
  "EscapedPath u = (if Path u = ''*'' then ''*'' else escape (Path u) encodePath)"

text \<open>Whether the first segment of a path holds a colon.\<close>

definition colon_first :: "string \<Rightarrow> bool" where
  "colon_first path = (CHR '':'' \<in> set (takeWhile (\<lambda>c. c \<noteq> CHR ''/'') path))"

definition URL_String :: "URL \<Rightarrow> string" where
  "URL_String u =
     (let buf = (if Scheme u \<noteq> [] then Scheme u @ '':'' else []);
          buf = (if Scheme u \<noteq> [] \<or> Host u \<noteq> [] \<or> User u \<noteq> None then
                   (let buf = (if Host u \<noteq> [] \<or> Path u \<noteq> [] \<or> User u \<noteq> None
                               then buf @ ''//'' else buf);
                        buf = (case User u of
                                 Some ui \<Rightarrow> buf @ Userinfo_String ui @ ''@''
                               | None \<Rightarrow> buf)
                    in if Host u \<noteq> [] then buf @ escape (Host u) encodeHost else buf)
                 else buf);
          path = EscapedPath u;
          buf = (if path \<noteq> [] \<and> hd path \<noteq> CHR ''/'' \<and> Host u \<noteq> [] then buf @ ''/'' else buf);
          buf = (if buf = [] \<and> colon_first path then buf @ ''./'' else buf);
          buf = buf @ path
      in if RawQuery u \<noteq> [] then buf @ ''?'' @ RawQuery u else buf)"

text \<open>
  \<^verbatim>\<open>url.Values\<close> maps a key to a list of values; \<^verbatim>\<open>Set\<close> replaces the list of a key by
  one value. \<^verbatim>\<open>Encode\<close> writes \<^verbatim>\<open>key=value\<close> pairs, escaped, sorted by key and joined by
  \<^verbatim>\<open>&\<close>.
\<close>

type_synonym Values = "(string \<times> string list) list"

fun Values_Set :: "string \<Rightarrow> string \<Rightarrow> Values \<Rightarrow> Values" where
  "Values_Set k v [] = [(k, [v])]"
| "Values_Set k v ((k', vs) # q) = (if k' = k then (k, [v]) # q else (k', vs) # Values_Set k v q)"

fun Values_Get :: "Values \<Rightarrow> string \<Rightarrow> string list" where
  "Values_Get [] k = []"
| "Values_Get ((k', vs) # q) k = (if k' = k then vs else Values_Get q k)"

fun join_amp :: "string list \<Rightarrow> string" where
  "join_amp [] = []"
| "join_amp [p] = p"
| "join_amp (p # q # ps) = p @ ''&'' @ join_amp (q # ps)"

definition query_pairs :: "Values \<Rightarrow> string list" where
  "query_pairs q =
     concat (map (\<lambda>k. map (\<lambda>v. QueryEscape k @ ''='' @ QueryEscape v) (Values_Get q k))
                 (sort (map fst q)))"

definition Values_Encode :: "Values \<Rightarrow> string" where
  "Values_Encode q = join_amp (query_pairs q)"

text \<open>
  \<^verbatim>\<open>createPostgresURI\<close>. The extra parameters are a Go map: \<open>None\<close> is the \<^verbatim>\<open>nil\<close> map,
  \<open>Some ps\<close> a map with the entries \<open>ps\<close>, in the order the \<^verbatim>\<open>range\<close> loop visits them.
\<close>

definition createPostgresURI_url :: "Adapter \<Rightarrow> URL" where
  "createPostgresURI_url a =
     (let uri = \<lparr>Scheme = adapterType, User = None,
                 Host = host a @ '':'' @ fmt_d (port a), Path = database a, RawQuery = []\<rparr>;
          uri = (if user a \<noteq> [] then
                   (if password a \<noteq> [] then uri\<lparr>User := Some (url_UserPassword (user a) (password a))\<rparr>
                    else uri\<lparr>User := Some (url_User (user a))\<rparr>)
                 else uri)
      in case params a of
           None \<Rightarrow> uri
         | Some ps \<Rightarrow> uri\<lparr>RawQuery := Values_Encode (fold (\<lambda>(k, v) query. Values_Set k v query) ps [])\<rparr>)"

definition createPostgresURI :: "Adapter \<Rightarrow> string" where
  "createPostgresURI a = URL_String (createPostgresURI_url a)"

text \<open>
  \<^verbatim>\<open>NewAdapter\<close>. An option is a function on the adapter. \<open>sql_Open\<close> is
  \<^verbatim>\<open>database/sql.Open\<close>, which hands out a handle without connecting.
\<close>

type_synonym Option = "Adapter \<Rightarrow> Adapter"

definition WithHost :: "string \<Rightarrow> Option" where
  "WithHost h = (\<lambda>a. a\<lparr>host := h\<rparr>)"

definition WithPort :: "nat \<Rightarrow> Option" where
  "WithPort p = (\<lambda>a. a\<lparr>port := p\<rparr>)"

definition WithUser :: "string \<Rightarrow> Option" where
  "WithUser u = (\<lambda>a. a\<lparr>user := u\<rparr>)"

definition WithPassword :: "string \<Rightarrow> Option" where
  "WithPassword p = (\<lambda>a. a\<lparr>password := p\<rparr>)"

definition WithParams :: "(string \<times> string) list option \<Rightarrow> Option" where
  "WithParams ps = (\<lambda>a. a\<lparr>params := ps\<rparr>)"

definition zero_Adapter :: Adapter where
  "zero_Adapter = \<lparr>host = [], user = [], password = [], database = [], port = 0,
                    params = None, db = None\<rparr>"

definition NewAdapter ::
  "(string \<Rightarrow> string \<Rightarrow> error + sqlDB) \<Rightarrow> string \<Rightarrow> Option list \<Rightarrow> Adapter \<times> error option" where
  "NewAdapter sql_Open dbname options =
     (let adapter = zero_Adapter\<lparr>host := defaultHost, port := defaultPort\<rparr>;
          adapter = fold (\<lambda>opt a. opt a) options adapter
      in case sql_Open ''postgres'' (createPostgresURI adapter) of
           Inl err \<Rightarrow> (zero_Adapter, Some err)
         | Inr h \<Rightarrow> (adapter\<lparr>db := Some h\<rparr>, None))"

section \<open>What the operations are expected to do\<close>

subsection \<open>Migrations\<close>

text \<open>The key of the migration script of a version: \<^verbatim>\<open><version>.sql\<close>.\<close>

definition schema_key :: "nat \<Rightarrow> string" where
  "schema_key v = fmt_d v @ ''.sql''"

text \<open>
  Applying the migrations of a list of versions, one at a time and in the order of the
  list: the script of a version is looked up under its key and executed; when the script
  is missing or its execution fails, the run stops with an error that wraps the cause
  behind the key, and whatever was applied before stays applied.
\<close>

fun migrate :: "env \<Rightarrow> nat list \<Rightarrow> pg \<Rightarrow> error option \<times> pg" where
  "migrate E [] d = (None, d)"
| "migrate E (v # vs) d =
     (case fsSchemas E (''schemas/'' @ schema_key v) of
        Inl err \<Rightarrow> (Some (ErrWrap (''error applying schema '' @ schema_key v @ '': '') err), d)
      | Inr script \<Rightarrow>
          (case execScript E script (tables d) of
             (Some err, st) \<Rightarrow>
               (Some (ErrWrap (''error applying schema '' @ schema_key v @ '': '') err),
                d\<lparr>tables := st, stmts := stmts d @ [StExec script]\<rparr>)
           | (None, st) \<Rightarrow> migrate E vs (d\<lparr>tables := st, stmts := stmts d @ [StExec script]\<rparr>)))"

text \<open>The statements issued between a state and a later one.\<close>

definition issued :: "pg \<Rightarrow> pg \<Rightarrow> stmt list" where
  "issued d d' = drop (length (stmts d)) (stmts d')"

subsection \<open>The rows of a batch\<close>

text \<open>
  The JSON encoding of an attribute value and the events of a transaction, where the
  collaborator produces them (and nothing where it fails).
\<close>

definition json_of :: "env \<Rightarrow> gvalue \<Rightarrow> string" where
  "json_of E v = (case json_Marshal E v of Inr b \<Rightarrow> b | Inl _ \<Rightarrow> [])"

definition events_of :: "env \<Rightarrow> TX \<Rightarrow> Event list" where
  "events_of E tx = (case UnmarshallEvents E tx of Inr events \<Rightarrow> events | Inl _ \<Rightarrow> [])"

text \<open>
  The attribute row of one attribute: it refers to the hash of the transaction and to the
  position of the event, and its value is the JSON encoding of the attribute value.
\<close>

definition attribute_row :: "env \<Rightarrow> string \<Rightarrow> nat \<Rightarrow> Event \<Rightarrow> Attribute \<Rightarrow> row" where
  "attribute_row E h i evt attr =
     AttrRow \<lparr>col_tx_hash = h, col_event_type = Type evt, col_event_index = i,
              col_name = Key attr, col_value = json_of E (Value attr)\<rparr>"

definition event_rows :: "env \<Rightarrow> string \<Rightarrow> nat \<times> Event \<Rightarrow> row list" where
  "event_rows E h ie = map (attribute_row E h (fst ie) (snd ie)) (Attributes (snd ie))"

definition transaction_row :: "TX \<Rightarrow> row" where
  "transaction_row tx =
     TxRow \<lparr>col_hash = Hash tx, col_index = Index tx, col_height = Height tx,
            col_block_time = BlockTime tx\<rparr>"

text \<open>
  The rows of one transaction: its own row, then one row per attribute of each event, the
  events in the order of their index. The rows of a batch: those of its transactions, in
  the order of the batch.
\<close>

definition TX_rows :: "env \<Rightarrow> TX \<Rightarrow> row list" where
  "TX_rows E tx =
     transaction_row tx # concat (map (event_rows E (Hash tx)) (enumerate 0 (events_of E tx)))"

definition batch_rows :: "env \<Rightarrow> TX list \<Rightarrow> row list" where
  "batch_rows E txs = concat (map (TX_rows E) txs)"

text \<open>Every transaction of the batch decodes and every attribute value encodes.\<close>

definition encodable :: "env \<Rightarrow> TX list \<Rightarrow> bool" where
  "encodable E txs =
     list_all (\<lambda>tx. case UnmarshallEvents E tx of
                      Inl _ \<Rightarrow> False
                    | Inr events \<Rightarrow>
                        list_all (\<lambda>evt. list_all (\<lambda>attr. \<not> isl (json_Marshal E (Value attr)))
                                                  (Attributes evt)) events) txs"

text \<open>
  The server accepts the inserts of \<open>rs\<close> one after the other, in a transaction that holds
  the uncommitted rows \<open>p\<close> already.
\<close>

fun accepts :: "env \<Rightarrow> store \<Rightarrow> row list \<Rightarrow> row list \<Rightarrow> bool" where
  "accepts E st p [] = True"
| "accepts E st p (r # rs) = (refuses E st p (StInsert r) = None \<and> accepts E st (p @ [r]) rs)"

text \<open>The rows of the insert statements of a history, in order.\<close>

fun inserted :: "stmt list \<Rightarrow> row list" where
  "inserted [] = []"
| "inserted (StInsert r # ss) = r # inserted ss"
| "inserted (_ # ss) = inserted ss"

text \<open>
  The invariant of the iterations of \<^verbatim>\<open>Save\<close>, from a state \<open>d\<close> with an open transaction
  to the state \<open>d'\<close> where an iteration returns \<open>r\<close>: the tables are untouched, the accepted rows
  \<open>rs\<close> are uncommitted, and the inserts issued are an initial part of the expected ones,
  all of them when it succeeds.
\<close>

definition progress :: "env \<Rightarrow> row list \<Rightarrow> pg \<Rightarrow> error option \<Rightarrow> pg \<Rightarrow> bool" where
  "progress E expected d r d' =
     (\<exists>rs ins. tables d' = tables d \<and> pending d' = Some (uncommitted d @ rs) \<and>
        stmts d' = stmts d @ map StInsert ins \<and> prefix rs ins \<and> prefix ins expected \<and>
        accepts E (tables d) (uncommitted d) rs \<and> (r = None \<longrightarrow> rs = expected \<and> ins = expected))"

subsection \<open>The parts of the locator\<close>





section \<open>Examples\<close>

text \<open>
  An adapter with credentials and two extra parameters, an empty database, and
  collaborators to run the operations on: two migration scripts, of which the first
  creates the version table and each records its version; a server that refuses a second
  transaction row with the same hash and an attribute value longer than ten bytes; a
  decoder of three payloads; an encoder of the values.
\<close>

definition ex_adapter :: Adapter where
  "ex_adapter = \<lparr>host = ''127.0.0.1'', user = ''indexer'', password = ''s3cret'',
                  database = ''chain'', port = 5432,
                  params = Some [(''sslmode'', ''disable''), (''connect_timeout'', ''10'')],
                  db = Some (SqlDB ''postgres'')\<rparr>"

definition ex_store :: store where
  "ex_store = \<lparr>schema_tab = None, tx_tab = [], attr_tab = []\<rparr>"

definition ex_pg :: pg where
  "ex_pg = \<lparr>tables = ex_store, pending = None, stmts = []\<rparr>"

definition ex_json :: "gvalue \<Rightarrow> error + string" where
  "ex_json v =
     (case v of
        GNil \<Rightarrow> Inr ''null''
      | GBool b \<Rightarrow> Inr (if b then ''true'' else ''false'')
      | GInt n \<Rightarrow> Inr (if 0 \<le> n then fmt_d (nat n) else ''-'' @ fmt_d (nat (- n)))
      | GString s \<Rightarrow> Inr ([CHR 0x22] @ s @ [CHR 0x22])
      | GList vs \<Rightarrow> Inr ''[]''
      | GChan \<Rightarrow> Inl (ErrNew ''json: unsupported type: chan int''))"

definition ex_events :: "TX \<Rightarrow> error + Event list" where
  "ex_events tx =
     (if Payload tx = ''transfer'' then
        Inr [\<lparr>Type = ''message'', Attributes = [\<lparr>Key = ''action'', Value = GString ''send''\<rparr>]\<rparr>,
             \<lparr>Type = ''transfer'', Attributes = [\<lparr>Key = ''amount'', Value = GInt 42\<rparr>,
                                                  \<lparr>Key = ''denom'', Value = GString ''stake''\<rparr>]\<rparr>]
      else if Payload tx = ''memo'' then
        Inr [\<lparr>Type = ''memo'', Attributes = [\<lparr>Key = ''text'', Value = GString ''a long memo text''\<rparr>]\<rparr>]
      else if Payload tx = [] then Inr []
      else Inl (ErrNew ''unexpected end of JSON input''))"

definition ex_refuses :: "store \<Rightarrow> row list \<Rightarrow> stmt \<Rightarrow> error option" where
  "ex_refuses st p s =
     (case s of
        StInsert (TxRow t) \<Rightarrow>
          if col_hash t \<in> set (map col_hash (tx_tab st @ tx_rows p))
          then Some (ErrNew ''pq: duplicate key value violates unique constraint'') else None
      | StInsert (AttrRow r) \<Rightarrow>
          if 10 < length (col_value r) then Some (ErrNew ''pq: value too long'') else None
      | _ \<Rightarrow> None)"

definition ex_fs :: "string \<Rightarrow> error + string" where
  "ex_fs p =
     (if p = ''schemas/1.sql'' then Inr ''CREATE TABLE schema''
      else if p = ''schemas/2.sql'' then Inr ''ALTER TABLE tx''
      else Inl (ErrNew ''file does not exist''))"

definition ex_exec :: "string \<Rightarrow> store \<Rightarrow> error option \<times> store" where
  "ex_exec script st =
     (if script = ''CREATE TABLE schema'' then (None, st\<lparr>schema_tab := Some [1]\<rparr>)
      else if script = ''ALTER TABLE tx'' then
        (None, st\<lparr>schema_tab := Some (case schema_tab st of None \<Rightarrow> [2] | Some vs \<Rightarrow> vs @ [2])\<rparr>)
      else (Some (ErrNew ''pq: syntax error''), st))"

definition ex_env :: env where
  "ex_env = \<lparr>fsSchemas = ex_fs, execScript = ex_exec, refuses = ex_refuses,
              UnmarshallEvents = ex_events, json_Marshal = ex_json\<rparr>"


definition ex_tx :: "string \<Rightarrow> int \<Rightarrow> string \<Rightarrow> TX" where
  "ex_tx h n payload = \<lparr>Hash = h, Index = 0, Height = n, BlockTime = 1650000000, Payload = payload\<rparr>"




definition ex_pg_v :: "nat list \<Rightarrow> pg" where
  "ex_pg_v vs = ex_pg\<lparr>tables := ex_store\<lparr>schema_tab := Some vs\<rparr>\<rparr>"

definition ok_batch :: "TX list" where
  "ok_batch = [ex_tx ''A1'' 10 ''transfer'', ex_tx ''B2'' 12 []]"

definition dup_batch :: "TX list" where
  "dup_batch = [ex_tx ''A1'' 10 ''transfer'', ex_tx ''B2'' 12 [], ex_tx ''A1'' 11 []]"

definition long_batch :: "TX list" where
  "long_batch = [ex_tx ''C3'' 10 ''memo'']"

section \<open>Auxiliary facts\<close>

subsection \<open>Reading\<close>


subsection \<open>Migrations\<close>

lemma getSchemaVersion_handle: "getSchemaVersion a d = (v, None) \<Longrightarrow> db a \<noteq> None"
  by (auto simp: getSchemaVersion_def getDB_def split: option.splits)

lemma SetupSchema_loop_migrate:
  "db a \<noteq> None \<Longrightarrow> SetupSchema_loop E a target i d = migrate E [i..<Suc target] d"
proof (induction E a target i d rule: SetupSchema_loop.induct)
  case (1 E a target i d)
  show ?case
  proof (cases "i \<le> target")
    case False
    then show ?thesis by (simp add: SetupSchema_loop.simps [of E a target i d])
  next
    case True
    then have upt: "[i..<Suc target] = i # [Suc i..<Suc target]"
      by (simp add: upt_conv_Cons)
    show ?thesis
    proof (cases "applySchema E a (fmt_d i @ ''.sql'') d")
      case (Pair r d')
      show ?thesis
      proof (cases r)
        case (Some err)
        with Pair True "1.prems" show ?thesis
          unfolding upt
          by (auto simp: SetupSchema_loop.simps [of E a target i d] applySchema_def getDB_def
              ExecContext_def schema_key_def split: sum.splits option.splits prod.splits)
      next
        case None
        with Pair True "1.prems" "1.IH" show ?thesis
          unfolding upt
          by (auto simp: SetupSchema_loop.simps [of E a target i d] applySchema_def getDB_def
              ExecContext_def schema_key_def split: sum.splits option.splits prod.splits)
      qed
    qed
  qed
qed

lemma migrate_trace:
  "migrate E vs d = (r, d') \<Longrightarrow>
   \<exists>done ss. prefix done vs \<and>
     map (\<lambda>v. fsSchemas E (''schemas/'' @ schema_key v)) done = map Inr ss \<and>
     stmts d' = stmts d @ map StExec ss \<and>
     (case r of
        None \<Rightarrow> done = vs
      | Some err \<Rightarrow> \<exists>pre v post e. vs = pre @ v # post \<and>
          err = ErrWrap (''error applying schema '' @ schema_key v @ '': '') e \<and>
          (done = pre \<and> fsSchemas E (''schemas/'' @ schema_key v) = Inl e \<or> done = pre @ [v]))"
proof (induction vs arbitrary: d)
  case Nil
  then show ?case by auto
next
  case (Cons v vs)
  show ?case
  proof (cases "fsSchemas E (''schemas/'' @ schema_key v)")
    case (Inl err)
    with Cons.prems have r: "r = Some (ErrWrap (''error applying schema '' @ schema_key v @ '': '') err)"
      and d': "d' = d"
      by auto
    have "\<exists>pre w post e. v # vs = pre @ w # post \<and>
          ErrWrap (''error applying schema '' @ schema_key v @ '': '') err =
            ErrWrap (''error applying schema '' @ schema_key w @ '': '') e \<and>
          ([] = pre \<and> fsSchemas E (''schemas/'' @ schema_key w) = Inl e \<or> [] = pre @ [w])"
      using Inl by (intro exI [of _ "[]"] exI [of _ v] exI [of _ vs] exI [of _ err]) simp
    with r d' show ?thesis
      by (intro exI [of _ "[]"]) simp
  next
    case (Inr script)
    obtain r1 st where ex: "execScript E script (tables d) = (r1, st)"
      by (cases "execScript E script (tables d)")
    let ?d1 = "d\<lparr>tables := st, stmts := stmts d @ [StExec script]\<rparr>"
    show ?thesis
    proof (cases r1)
      case (Some err)
      with Inr ex Cons.prems
      have r: "r = Some (ErrWrap (''error applying schema '' @ schema_key v @ '': '') err)"
        and d': "d' = ?d1"
        by auto
      have "\<exists>pre w post e. v # vs = pre @ w # post \<and>
          ErrWrap (''error applying schema '' @ schema_key v @ '': '') err =
            ErrWrap (''error applying schema '' @ schema_key w @ '': '') e \<and>
          ([v] = pre \<and> fsSchemas E (''schemas/'' @ schema_key w) = Inl e \<or> [v] = pre @ [w])"
        by (intro exI [of _ "[]"] exI [of _ v] exI [of _ vs] exI [of _ err]) simp
      with r d' Inr show ?thesis
        by (intro exI [of _ "[v]"] exI [of _ "[script]"]) simp
    next
      case None
      with Inr ex Cons.prems have "migrate E vs ?d1 = (r, d')"
        by auto
      from Cons.IH [OF this] obtain dn ss where
        h: "prefix dn vs" "map (\<lambda>v. fsSchemas E (''schemas/'' @ schema_key v)) dn = map Inr ss"
          "stmts d' = stmts ?d1 @ map StExec ss"
          "(case r of None \<Rightarrow> dn = vs
            | Some err \<Rightarrow> \<exists>pre v post e. vs = pre @ v # post \<and>
                err = ErrWrap (''error applying schema '' @ schema_key v @ '': '') e \<and>
                (dn = pre \<and> fsSchemas E (''schemas/'' @ schema_key v) = Inl e \<or> dn = pre @ [v]))"
        by blast
      have "(case r of None \<Rightarrow> v # dn = v # vs
            | Some err \<Rightarrow> \<exists>pre w post e. v # vs = pre @ w # post \<and>
                err = ErrWrap (''error applying schema '' @ schema_key w @ '': '') e \<and>
                (v # dn = pre \<and> fsSchemas E (''schemas/'' @ schema_key w) = Inl e \<or> v # dn = pre @ [w]))"
      proof (cases r)
        case None
        with h(4) show ?thesis by simp
      next
        case (Some err)
        with h(4) obtain pre w post e where
          w: "vs = pre @ w # post" "err = ErrWrap (''error applying schema '' @ schema_key w @ '': '') e"
            "dn = pre \<and> fsSchemas E (''schemas/'' @ schema_key w) = Inl e \<or> dn = pre @ [w]"
          by auto
        have "\<exists>pre' w' post' e'. v # vs = pre' @ w' # post' \<and>
                err = ErrWrap (''error applying schema '' @ schema_key w' @ '': '') e' \<and>
                (v # dn = pre' \<and> fsSchemas E (''schemas/'' @ schema_key w') = Inl e' \<or> v # dn = pre' @ [w'])"
          using w by (intro exI [of _ "v # pre"] exI [of _ w] exI [of _ post] exI [of _ e]) auto
        with Some show ?thesis by simp
      qed
      with h(1-3) Inr show ?thesis
        by (intro exI [of _ "v # dn"] exI [of _ "script # ss"]) simp
    qed
  qed
qed

lemma upt_split:
  assumes "[i..<j] = pre @ v # post"
  shows "pre = [i..<v] \<and> i \<le> v \<and> v < j"
proof -
  have len: "length pre < j - i"
    using arg_cong [OF assms, of length] by simp
  have "pre = take (length pre) [i..<j]" using assms by simp
  also have "\<dots> = [i..<i + length pre]" using len by (simp add: take_upt)
  finally have pre: "pre = [i..<i + length pre]" .
  have "v = [i..<j] ! length pre" using assms by simp
  also have "\<dots> = i + length pre" using len by simp
  finally have "v = i + length pre" .
  with pre len show ?thesis by simp
qed

subsection \<open>The iterations of Save\<close>

lemma accepts_append:
  "accepts E st p (rs @ rs') = (accepts E st p rs \<and> accepts E st (p @ rs) rs')"
  by (induction rs arbitrary: p) auto

lemma progress_refl: "pending d \<noteq> None \<Longrightarrow> progress E [] d None d"
  by (auto simp: progress_def uncommitted_def)

lemma progress_stop: "pending d \<noteq> None \<Longrightarrow> progress E expected d (Some err) d"
  unfolding progress_def
  by (intro exI [of _ "[]"]) (auto simp: uncommitted_def)

lemma progress_pending: "progress E expected d r d' \<Longrightarrow> pending d' \<noteq> None"
  by (auto simp: progress_def)

lemma progress_trans:
  assumes "progress E e1 d None d1" and "progress E e2 d1 r d2"
  shows "progress E (e1 @ e2) d r d2"
proof -
  from assms(1) have 1: "tables d1 = tables d" "pending d1 = Some (uncommitted d @ e1)"
    "stmts d1 = stmts d @ map StInsert e1" "accepts E (tables d) (uncommitted d) e1"
    by (auto simp: progress_def)
  then have u: "uncommitted d1 = uncommitted d @ e1"
    by (simp add: uncommitted_def)
  from assms(2) obtain rs ins where 2: "tables d2 = tables d1"
    "pending d2 = Some (uncommitted d1 @ rs)" "stmts d2 = stmts d1 @ map StInsert ins"
    "prefix rs ins" "prefix ins e2" "accepts E (tables d1) (uncommitted d1) rs"
    "r = None \<longrightarrow> rs = e2 \<and> ins = e2"
    unfolding progress_def by blast
  show ?thesis
    unfolding progress_def
    using 1 2 u
    by (intro exI [of _ "e1 @ rs"] exI [of _ "e1 @ ins"]) (auto simp: accepts_append)
qed

lemma progress_fail:
  assumes "progress E e1 d (Some err) d1"
  shows "progress E (e1 @ e2) d (Some err') d1"
proof -
  from assms obtain rs ins where h: "tables d1 = tables d" "pending d1 = Some (uncommitted d @ rs)"
    "stmts d1 = stmts d @ map StInsert ins" "prefix rs ins" "prefix ins e1"
    "accepts E (tables d) (uncommitted d) rs"
    unfolding progress_def by blast
  from h(5) have "prefix ins (e1 @ e2)" by (rule prefix_prefix)
  with h show ?thesis
    unfolding progress_def by (intro exI [of _ rs] exI [of _ ins]) simp
qed

lemma Stmt_ExecContext_progress:
  assumes "pending d \<noteq> None" and "Stmt_ExecContext E row d = (r, d')"
  shows "progress E [row] d r d'"
proof (cases "refuses E (tables d) (uncommitted d) (StInsert row)")
  case None
  with assms have "r = None"
    "d' = d\<lparr>pending := map_option (\<lambda>rs. rs @ [row]) (pending d), stmts := stmts d @ [StInsert row]\<rparr>"
    by (auto simp: Stmt_ExecContext_def)
  with assms(1) None show ?thesis
    unfolding progress_def
    by (intro exI [of _ "[row]"]) (auto simp: uncommitted_def)
next
  case (Some err)
  with assms have "r = Some err" "d' = d\<lparr>stmts := stmts d @ [StInsert row]\<rparr>"
    by (auto simp: Stmt_ExecContext_def)
  with assms(1) show ?thesis
    unfolding progress_def
    by (intro exI [of _ "[]"] exI [of _ "[row]"]) (auto simp: uncommitted_def)
qed

lemma Save_attrs_progress:
  "pending d \<noteq> None \<Longrightarrow> Save_attrs E h (Type evt) i attrs d = (r, d') \<Longrightarrow>
   progress E (map (attribute_row E h i evt) attrs) d r d'"
proof (induction attrs arbitrary: d)
  case Nil
  then show ?case by (auto intro: progress_refl)
next
  case (Cons attr attrs)
  show ?case
  proof (cases "json_Marshal E (Value attr)")
    case (Inl err)
    with Cons.prems show ?thesis by (auto intro: progress_stop)
  next
    case (Inr v)
    let ?row = "attribute_row E h i evt attr"
    from Inr have row: "?row = AttrRow \<lparr>col_tx_hash = h, col_event_type = Type evt,
        col_event_index = i, col_name = Key attr, col_value = v\<rparr>"
      by (simp add: attribute_row_def json_of_def)
    obtain r1 d1 where ex: "Stmt_ExecContext E ?row d = (r1, d1)"
      by (cases "Stmt_ExecContext E ?row d")
    from Stmt_ExecContext_progress [OF Cons.prems(1) ex] have p1: "progress E [?row] d r1 d1" .
    show ?thesis
    proof (cases r1)
      case None
      with Inr ex row Cons.prems(2) have "Save_attrs E h (Type evt) i attrs d1 = (r, d')"
        by simp
      from Cons.IH [OF progress_pending [OF p1] this] p1 None
      show ?thesis using progress_trans [of E "[?row]" d d1] by simp
    next
      case (Some err)
      with Inr ex row Cons.prems(2) have "r = Some (ErrWrap ''error saving event attribute: '' err)" "d' = d1"
        by simp_all
      with p1 Some show ?thesis
        using progress_fail [of E "[?row]" d err d1 "map (attribute_row E h i evt) attrs"] by simp
    qed
  qed
qed

lemma Save_events_progress:
  "pending d \<noteq> None \<Longrightarrow> Save_events E h i events d = (r, d') \<Longrightarrow>
   progress E (concat (map (event_rows E h) (enumerate i events))) d r d'"
proof (induction events arbitrary: d i)
  case Nil
  then show ?case by (auto intro: progress_refl)
next
  case (Cons evt events)
  obtain r1 d1 where ex: "Save_attrs E h (Type evt) i (Attributes evt) d = (r1, d1)"
    by (cases "Save_attrs E h (Type evt) i (Attributes evt) d")
  from Save_attrs_progress [OF Cons.prems(1) ex]
  have p1: "progress E (event_rows E h (i, evt)) d r1 d1"
    by (simp add: event_rows_def)
  show ?case
  proof (cases r1)
    case None
    with ex Cons.prems(2) have "Save_events E h (Suc i) events d1 = (r, d')"
      by simp
    from Cons.IH [OF progress_pending [OF p1] this] p1 None
    show ?thesis using progress_trans [of E "event_rows E h (i, evt)" d d1] by simp
  next
    case (Some err)
    with ex Cons.prems(2) have "r = Some err" "d' = d1"
      by simp_all
    with p1 Some show ?thesis
      using progress_fail [of E "event_rows E h (i, evt)" d err d1] by simp
  qed
qed

lemma Save_txs_progress:
  "pending d \<noteq> None \<Longrightarrow> Save_txs E txs d = (r, d') \<Longrightarrow> progress E (batch_rows E txs) d r d'"
proof (induction txs arbitrary: d)
  case Nil
  then show ?case by (auto simp: batch_rows_def intro: progress_refl)
next
  case (Cons tx txs)
  let ?row = "transaction_row tx"
  let ?evs = "concat (map (event_rows E (Hash tx)) (enumerate 0 (events_of E tx)))"
  have split: "batch_rows E (tx # txs) = [?row] @ (?evs @ batch_rows E txs)"
    by (simp add: batch_rows_def TX_rows_def)
  obtain r1 d1 where ex: "Stmt_ExecContext E ?row d = (r1, d1)"
    by (cases "Stmt_ExecContext E ?row d")
  from Stmt_ExecContext_progress [OF Cons.prems(1) ex] have p1: "progress E [?row] d r1 d1" .
  show ?case
  proof (cases r1)
    case (Some err)
    with ex Cons.prems(2) have "r = Some (ErrWrap (''error saving transaction '' @ Hash tx @ '': '') err)" "d' = d1"
      by (simp_all add: transaction_row_def)
    with p1 Some show ?thesis
      unfolding split using progress_fail [of E "[?row]" d err d1] by simp
  next
    case None
    note r1 = this
    have pd1: "pending d1 \<noteq> None" using p1 by (rule progress_pending)
    show ?thesis
    proof (cases "UnmarshallEvents E tx")
      case (Inl err)
      with ex r1 Cons.prems(2) have "r = Some err" "d' = d1"
        by (simp_all add: transaction_row_def)
      with pd1 have "progress E (?evs @ batch_rows E txs) d1 r d'"
        by (auto intro: progress_stop)
      with p1 r1 have "progress E ([?row] @ (?evs @ batch_rows E txs)) d r d'"
        by (blast intro: progress_trans)
      then show ?thesis by (simp only: split)
    next
      case (Inr events)
      then have evs: "events_of E tx = events" by (simp add: events_of_def)
      obtain r2 d2 where ex2: "Save_events E (Hash tx) 0 events d1 = (r2, d2)"
        by (cases "Save_events E (Hash tx) 0 events d1")
      from Save_events_progress [OF pd1 ex2] evs have p2: "progress E ?evs d1 r2 d2"
        by simp
      have "progress E (?evs @ batch_rows E txs) d1 r d'"
      proof (cases r2)
        case (Some err)
        with ex ex2 r1 Inr Cons.prems(2) have "r = Some err" "d' = d2"
          by (simp_all add: transaction_row_def)
        with p2 Some show ?thesis
          using progress_fail [of E ?evs d1 err d2] by simp
      next
        case None
        with ex ex2 r1 Inr Cons.prems(2) have "Save_txs E txs d2 = (r, d')"
          by (simp add: transaction_row_def)
        from Cons.IH [OF progress_pending [OF p2] this] p2 None
        show ?thesis by (auto intro: progress_trans)
      qed
      with p1 r1 have "progress E ([?row] @ (?evs @ batch_rows E txs)) d r d'"
        by (blast intro: progress_trans)
      then show ?thesis by (simp only: split)
    qed
  qed
qed

lemma Save_attrs_encodable:
  "Save_attrs E h t i attrs d = (None, d') \<Longrightarrow> list_all (\<lambda>attr. \<not> isl (json_Marshal E (Value attr))) attrs"
  by (induction attrs arbitrary: d) (auto split: sum.splits prod.splits option.splits)

lemma Save_events_encodable:
  "Save_events E h i events d = (None, d') \<Longrightarrow>
   list_all (\<lambda>evt. list_all (\<lambda>attr. \<not> isl (json_Marshal E (Value attr))) (Attributes evt)) events"
  by (induction events arbitrary: d i)
    (auto split: sum.splits prod.splits option.splits dest: Save_attrs_encodable)

lemma Save_txs_encodable: "Save_txs E txs d = (None, d') \<Longrightarrow> encodable E txs"
proof (induction txs arbitrary: d)
  case Nil
  then show ?case by (simp add: encodable_def)
next
  case (Cons tx txs)
  from Cons.prems obtain d1 events d2 where
    h: "UnmarshallEvents E tx = Inr events" "Save_events E (Hash tx) 0 events d1 = (None, d2)"
      "Save_txs E txs d2 = (None, d')"
    by (auto simp: Let_def split: sum.splits prod.splits option.splits)
  from Cons.IH [OF h(3)] Save_events_encodable [OF h(2)] h(1)
  show ?case by (simp add: encodable_def)
qed

lemma Save_open_cases:
  assumes "Save_open E txs d0 = (r, d1)" and "pending d0 = Some []"
  shows "tables (Rollback d1) = (if r = None then persist (batch_rows E txs) (tables d0) else tables d0) \<and>
     pending (Rollback d1) = None \<and>
     (\<exists>new. stmts (Rollback d1) = stmts d0 @ new \<and>
       (r \<noteq> None \<and> r = refuses E (tables d0) [] (StPrepare queryInsertTX) \<and>
          new = [StPrepare queryInsertTX, StRollback]
        \<or> r \<noteq> None \<and> refuses E (tables d0) [] (StPrepare queryInsertTX) = None \<and>
          r = refuses E (tables d0) [] (StPrepare queryInsertAttr) \<and>
          new = [StPrepare queryInsertTX, StPrepare queryInsertAttr, StRollback]
        \<or> r \<noteq> None \<and> (\<exists>ins. prefix ins (batch_rows E txs) \<and>
          new = [StPrepare queryInsertTX, StPrepare queryInsertAttr] @ map StInsert ins @ [StRollback])
        \<or> refuses E (tables d0) [] (StPrepare queryInsertTX) = None \<and>
          refuses E (tables d0) [] (StPrepare queryInsertAttr) = None \<and>
          encodable E txs \<and> accepts E (tables d0) [] (batch_rows E txs) \<and>
          r = refuses E (tables d0) (batch_rows E txs) StCommit \<and>
          new = [StPrepare queryInsertTX, StPrepare queryInsertAttr] @
                map StInsert (batch_rows E txs) @ [StCommit]))"
proof -
  let ?p1 = "refuses E (tables d0) [] (StPrepare queryInsertTX)"
  let ?p2 = "refuses E (tables d0) [] (StPrepare queryInsertAttr)"
  let ?d1 = "d0\<lparr>stmts := stmts d0 @ [StPrepare queryInsertTX]\<rparr>"
  let ?d2 = "?d1\<lparr>stmts := stmts ?d1 @ [StPrepare queryInsertAttr]\<rparr>"
  have u0: "uncommitted d0 = []" using assms(2) by (simp add: uncommitted_def)
  show ?thesis
  proof (cases ?p1)
    case (Some err)
    with assms u0 have "r = Some err" "d1 = ?d1"
      by (simp_all add: Save_open_def PrepareContext_def)
    with Some assms(2) show ?thesis
      by (simp add: Rollback_def)
  next
    case None
    note p1 = this
    show ?thesis
    proof (cases ?p2)
      case (Some err)
      with p1 assms u0 have "r = Some err" "d1 = ?d2"
        by (simp_all add: Save_open_def PrepareContext_def uncommitted_def)
      with Some p1 assms(2) show ?thesis
        by (simp add: Rollback_def)
    next
      case None
      note p2 = this
      obtain r3 d3 where ex: "Save_txs E txs ?d2 = (r3, d3)"
        by (cases "Save_txs E txs ?d2")
      have "pending ?d2 \<noteq> None" using assms(2) by simp
      from Save_txs_progress [OF this ex] obtain rs ins where
        pr: "tables d3 = tables d0" "pending d3 = Some rs"
          "stmts d3 = stmts d0 @ [StPrepare queryInsertTX, StPrepare queryInsertAttr] @ map StInsert ins"
          "prefix rs ins" "prefix ins (batch_rows E txs)" "accepts E (tables d0) [] rs"
          "r3 = None \<longrightarrow> rs = batch_rows E txs \<and> ins = batch_rows E txs"
        using assms(2) unfolding progress_def by (auto simp: uncommitted_def)
      from p1 p2 u0 ex assms(1) have step:
        "(r, d1) = (case r3 of Some err \<Rightarrow> (Some err, d3) | None \<Rightarrow> Commit E d3)"
        by (simp add: Save_open_def PrepareContext_def uncommitted_def split: option.splits)
      show ?thesis
      proof (cases r3)
        case (Some err)
        with step have "r = Some err" "d1 = d3" by simp_all
        with pr show ?thesis
          by (auto simp: Rollback_def)
      next
        case None
        with pr have all: "rs = batch_rows E txs" "ins = batch_rows E txs" by simp_all
        from None ex have enc: "encodable E txs" by (auto dest: Save_txs_encodable)
        from None step have c: "Commit E d3 = (r, d1)" by simp
        have u3: "uncommitted d3 = batch_rows E txs" using pr(2) all by (simp add: uncommitted_def)
        show ?thesis
        proof (cases "refuses E (tables d0) (batch_rows E txs) StCommit")
          case None
          with c u3 pr(1) have "r = None"
            "d1 = d3\<lparr>tables := persist (batch_rows E txs) (tables d0), pending := None,
                      stmts := stmts d3 @ [StCommit]\<rparr>"
            by (simp_all add: Commit_def)
          with None p1 p2 enc pr all show ?thesis
            by (simp add: Rollback_def)
        next
          case (Some err)
          with c u3 pr(1) have "r = Some err"
            "d1 = d3\<lparr>pending := None, stmts := stmts d3 @ [StCommit]\<rparr>"
            by (simp_all add: Commit_def)
          with Some p1 p2 enc pr all show ?thesis
            by (simp add: Rollback_def)
        qed
      qed
    qed
  qed
qed

lemma inserted_append: "inserted (ss @ ts) = inserted ss @ inserted ts"
  by (induction ss rule: inserted.induct) auto

lemma inserted_map: "inserted (map StInsert rs) = rs"
  by (induction rs) auto

lemma Save_cases:
  assumes "Save E a txs d = (r, d')"
  shows "db a = None \<and> r = Some ErrClosed \<and> d' = d
    \<or> db a \<noteq> None \<and> r \<noteq> None \<and> r = refuses E (tables d) [] StBegin \<and>
        d' = d\<lparr>stmts := stmts d @ [StBegin]\<rparr>
    \<or> db a \<noteq> None \<and> refuses E (tables d) [] StBegin = None \<and>
       tables d' = (if r = None then persist (batch_rows E txs) (tables d) else tables d) \<and>
       pending d' = None \<and>
       (\<exists>new. issued d d' = StBegin # new \<and>
       (r \<noteq> None \<and> r = refuses E (tables d) [] (StPrepare queryInsertTX) \<and>
          new = [StPrepare queryInsertTX, StRollback]
        \<or> r \<noteq> None \<and> refuses E (tables d) [] (StPrepare queryInsertTX) = None \<and>
          r = refuses E (tables d) [] (StPrepare queryInsertAttr) \<and>
          new = [StPrepare queryInsertTX, StPrepare queryInsertAttr, StRollback]
        \<or> r \<noteq> None \<and> (\<exists>rows. prefix rows (batch_rows E txs) \<and>
          new = [StPrepare queryInsertTX, StPrepare queryInsertAttr] @ map StInsert rows @ [StRollback])
        \<or> refuses E (tables d) [] (StPrepare queryInsertTX) = None \<and>
          refuses E (tables d) [] (StPrepare queryInsertAttr) = None \<and>
          encodable E txs \<and> accepts E (tables d) [] (batch_rows E txs) \<and>
          r = refuses E (tables d) (batch_rows E txs) StCommit \<and>
          new = [StPrepare queryInsertTX, StPrepare queryInsertAttr] @
                map StInsert (batch_rows E txs) @ [StCommit]))"
proof (cases "db a")
  case None
  with assms show ?thesis by (simp add: Save_def getDB_def)
next
  case (Some h)
  note h = this
  show ?thesis
  proof (cases "refuses E (tables d) [] StBegin")
    case (Some err)
    with h assms show ?thesis by (auto simp: Save_def getDB_def BeginTx_def)
  next
    case None
    let ?d0 = "d\<lparr>pending := Some [], stmts := stmts d @ [StBegin]\<rparr>"
    obtain d1 where so: "Save_open E txs ?d0 = (r, d1)" and d': "d' = Rollback d1"
      using assms h None by (auto simp: Save_def getDB_def BeginTx_def split: prod.splits)
    have p0: "pending ?d0 = Some []" by simp
    have t0: "tables ?d0 = tables d" "(stmts ?d0 @ new = stmts d @ StBegin # new)" for new
      by simp_all
    from Save_open_cases [OF so p0] obtain new where
      c: "tables d' = (if r = None then persist (batch_rows E txs) (tables d) else tables d)"
        "pending d' = None" "stmts d' = stmts d @ StBegin # new"
        "r \<noteq> None \<and> r = refuses E (tables d) [] (StPrepare queryInsertTX) \<and>
          new = [StPrepare queryInsertTX, StRollback]
        \<or> r \<noteq> None \<and> refuses E (tables d) [] (StPrepare queryInsertTX) = None \<and>
          r = refuses E (tables d) [] (StPrepare queryInsertAttr) \<and>
          new = [StPrepare queryInsertTX, StPrepare queryInsertAttr, StRollback]
        \<or> r \<noteq> None \<and> (\<exists>rows. prefix rows (batch_rows E txs) \<and>
          new = [StPrepare queryInsertTX, StPrepare queryInsertAttr] @ map StInsert rows @ [StRollback])
        \<or> refuses E (tables d) [] (StPrepare queryInsertTX) = None \<and>
          refuses E (tables d) [] (StPrepare queryInsertAttr) = None \<and>
          encodable E txs \<and> accepts E (tables d) [] (batch_rows E txs) \<and>
          r = refuses E (tables d) (batch_rows E txs) StCommit \<and>
          new = [StPrepare queryInsertTX, StPrepare queryInsertAttr] @
                map StInsert (batch_rows E txs) @ [StCommit]"
      unfolding d' t0 by blast
    from c(3) have "issued d d' = StBegin # new"
      by (simp add: issued_def)
    moreover from h have "db a \<noteq> None" by simp
    ultimately show ?thesis
      using c(1,2,4) None by blast
  qed
qed

subsection \<open>The locator\<close>

























section \<open>The claims\<close>

text \<open>
  C1. A batch is written all or nothing. When \<^verbatim>\<open>Save\<close> succeeds, every transaction of the
  batch decoded, every attribute value encoded, the server accepted every insert, and the
  tables hold exactly the rows of the batch more than before. When \<^verbatim>\<open>Save\<close> returns an
  error, the tables are as they were. No transaction is left open. A commit is issued only
  as the last statement, behind the accepted inserts of all rows of the batch; and an
  erroneous run that prepared a statement and did not reach the commit ends by a rollback.
\<close>

theorem Save_all_or_nothing:
  assumes "Save E a txs d = (r, d')" and "pending d = None"
  shows "(r = None \<longrightarrow> encodable E txs \<and> accepts E (tables d) [] (batch_rows E txs) \<and>
            tables d' = persist (batch_rows E txs) (tables d)) \<and>
         (r \<noteq> None \<longrightarrow> tables d' = tables d) \<and>
         pending d' = None \<and>
         (StCommit \<in> set (issued d d') \<longrightarrow>
            encodable E txs \<and> accepts E (tables d) [] (batch_rows E txs) \<and>
            issued d d' = [StBegin, StPrepare queryInsertTX, StPrepare queryInsertAttr] @
                          map StInsert (batch_rows E txs) @ [StCommit]) \<and>
         (r \<noteq> None \<and> StPrepare queryInsertTX \<in> set (issued d d') \<and> StCommit \<notin> set (issued d d') \<longrightarrow>
            last (issued d d') = StRollback)"
  using Save_cases [OF assms(1)] assms(2)
  by (elim disjE conjE exE) (auto simp: issued_def)

text \<open>
  A batch whose third transaction repeats the hash of the first is refused and leaves the
  tables as they were; the batch of the first two is written whole.
\<close>

theorem Save_all_or_nothing_witness:
  "pending ex_pg = None \<and>
   fst (Save ex_env ex_adapter dup_batch ex_pg) \<noteq> None \<and>
   tables (snd (Save ex_env ex_adapter dup_batch ex_pg)) = tables ex_pg \<and>
   pending (snd (Save ex_env ex_adapter dup_batch ex_pg)) = None \<and>
   fst (Save ex_env ex_adapter ok_batch ex_pg) = None \<and>
   tables (snd (Save ex_env ex_adapter ok_batch ex_pg)) = persist (batch_rows ex_env ok_batch) (tables ex_pg)"
proof -
  have p: "pending ex_pg = None" by (simp add: ex_pg_def)
  have e1: "fst (Save ex_env ex_adapter dup_batch ex_pg) \<noteq> None" by code_simp
  have e2: "fst (Save ex_env ex_adapter ok_batch ex_pg) = None" by code_simp
  from Save_all_or_nothing [OF prod.collapse [symmetric] p, of ex_env ex_adapter dup_batch]
    Save_all_or_nothing [OF prod.collapse [symmetric] p, of ex_env ex_adapter ok_batch] p e1 e2
  show ?thesis by simp
qed

text \<open>
  C2. From a current version below the target, \<^verbatim>\<open>SetupSchema\<close> does what applying the
  migrations of the versions \<open>current + 1, \<dots>, target\<close> in ascending order does. The scripts
  it executes are those found under the keys \<^verbatim>\<open><version>.sql\<close> of an initial part of these
  versions, in order, and of all of them when it succeeds. When it fails, the error wraps
  the cause behind the key of the version \<open>v\<close> where it stopped: either the script of \<open>v\<close> is
  missing and the scripts of the versions below \<open>v\<close> were executed, or the scripts up to
  that of \<open>v\<close> were. Nothing that was applied is undone.
\<close>

theorem SetupSchema_applies_pending:
  assumes "getSchemaVersion a d = (current, None)" and "current < target"
    and "SetupSchema_to target E a d = (r, d')"
  shows "(r, d') = migrate E [Suc current..<Suc target] d \<and>
    (\<exists>done scripts.
       prefix done [Suc current..<Suc target] \<and>
       map (\<lambda>v. fsSchemas E (''schemas/'' @ fmt_d v @ ''.sql'')) done = map Inr scripts \<and>
       issued d d' = map StExec scripts \<and>
       (case r of
          None \<Rightarrow> done = [Suc current..<Suc target]
        | Some err \<Rightarrow> \<exists>v e. current < v \<and> v \<le> target \<and>
            err = ErrWrap (''error applying schema '' @ fmt_d v @ ''.sql'' @ '': '') e \<and>
            (done = [Suc current..<v] \<and> fsSchemas E (''schemas/'' @ fmt_d v @ ''.sql'') = Inl e
             \<or> done = [Suc current..<Suc v])))"
proof -
  from assms(1) have "db a \<noteq> None" by (rule getSchemaVersion_handle)
  with assms have m: "migrate E [Suc current..<Suc target] d = (r, d')"
    by (simp add: SetupSchema_to_def SetupSchema_loop_migrate)
  from migrate_trace [OF m] obtain dn ss where
    h: "prefix dn [Suc current..<Suc target]"
      "map (\<lambda>v. fsSchemas E (''schemas/'' @ schema_key v)) dn = map Inr ss"
      "stmts d' = stmts d @ map StExec ss"
      "(case r of None \<Rightarrow> dn = [Suc current..<Suc target]
        | Some err \<Rightarrow> \<exists>pre v post e. [Suc current..<Suc target] = pre @ v # post \<and>
            err = ErrWrap (''error applying schema '' @ schema_key v @ '': '') e \<and>
            (dn = pre \<and> fsSchemas E (''schemas/'' @ schema_key v) = Inl e \<or> dn = pre @ [v]))"
    by blast
  have last: "(case r of
          None \<Rightarrow> dn = [Suc current..<Suc target]
        | Some err \<Rightarrow> \<exists>v e. current < v \<and> v \<le> target \<and>
            err = ErrWrap (''error applying schema '' @ fmt_d v @ ''.sql'' @ '': '') e \<and>
            (dn = [Suc current..<v] \<and> fsSchemas E (''schemas/'' @ fmt_d v @ ''.sql'') = Inl e
             \<or> dn = [Suc current..<Suc v]))"
  proof (cases r)
    case None
    with h(4) show ?thesis by simp
  next
    case (Some err)
    with h(4) obtain pre v post e where
      w: "[Suc current..<Suc target] = pre @ v # post"
        "err = ErrWrap (''error applying schema '' @ schema_key v @ '': '') e"
        "dn = pre \<and> fsSchemas E (''schemas/'' @ schema_key v) = Inl e \<or> dn = pre @ [v]"
      by auto
    from upt_split [OF w(1)] have p: "pre = [Suc current..<v]" "Suc current \<le> v" "v < Suc target"
      by simp_all
    then have "pre @ [v] = [Suc current..<Suc v]" by simp
    with w(2,3) p have "current < v \<and> v \<le> target \<and>
            err = ErrWrap (''error applying schema '' @ fmt_d v @ ''.sql'' @ '': '') e \<and>
            (dn = [Suc current..<v] \<and> fsSchemas E (''schemas/'' @ fmt_d v @ ''.sql'') = Inl e
             \<or> dn = [Suc current..<Suc v])"
      by (auto simp: schema_key_def)
    then have "\<exists>v e. current < v \<and> v \<le> target \<and>
            err = ErrWrap (''error applying schema '' @ fmt_d v @ ''.sql'' @ '': '') e \<and>
            (dn = [Suc current..<v] \<and> fsSchemas E (''schemas/'' @ fmt_d v @ ''.sql'') = Inl e
             \<or> dn = [Suc current..<Suc v])"
      by blast
    with Some show ?thesis by simp
  qed
  from h(3) have "issued d d' = map StExec ss" by (simp add: issued_def)
  with h(1,2) last m show ?thesis
    unfolding schema_key_def by (intro conjI exI [of _ dn] exI [of _ ss]) simp_all
qed

text \<open>
  From the empty database to the target 3 with scripts for the versions 1 and 2 only: the
  scripts of 1 and 2 are executed, the run stops at the missing script of 3 with an error
  that names \<^verbatim>\<open>3.sql\<close>, and the versions 1 and 2 stay recorded.
\<close>

theorem SetupSchema_applies_pending_witness:
  "getSchemaVersion ex_adapter ex_pg = (0, None) \<and> (0::nat) < 3 \<and>
   SetupSchema_to 3 ex_env ex_adapter ex_pg = migrate ex_env [Suc 0..<Suc 3] ex_pg \<and>
   fst (SetupSchema_to 3 ex_env ex_adapter ex_pg) =
     Some (ErrWrap ''error applying schema 3.sql: '' (ErrNew ''file does not exist'')) \<and>
   schema_tab (tables (snd (SetupSchema_to 3 ex_env ex_adapter ex_pg))) = Some [1, 2] \<and>
   issued ex_pg (snd (SetupSchema_to 3 ex_env ex_adapter ex_pg)) =
     [StExec ''CREATE TABLE schema'', StExec ''ALTER TABLE tx'']"
proof -
  have g: "getSchemaVersion ex_adapter ex_pg = (0, None)" by code_simp
  have e: "fst (SetupSchema_to 3 ex_env ex_adapter ex_pg) =
     Some (ErrWrap ''error applying schema 3.sql: '' (ErrNew ''file does not exist''))"
    "schema_tab (tables (snd (SetupSchema_to 3 ex_env ex_adapter ex_pg))) = Some [1, 2]"
    "issued ex_pg (snd (SetupSchema_to 3 ex_env ex_adapter ex_pg)) =
     [StExec ''CREATE TABLE schema'', StExec ''ALTER TABLE tx'']"
    by code_simp+
  have m: "SetupSchema_to 3 ex_env ex_adapter ex_pg = migrate ex_env [Suc 0..<Suc 3] ex_pg"
    using SetupSchema_applies_pending [OF g _ prod.collapse [symmetric], of 3 ex_env] by simp
  from m g e show ?thesis by simp
qed



text \<open>
  C4. When the version read from the store is greater than the target, \<^verbatim>\<open>SetupSchema\<close>
  fails with an error that tells both versions, and leaves the database as it is: no
  script is executed, and the installed version is the same.
\<close>

theorem SetupSchema_rejects_newer:
  assumes "getSchemaVersion a d = (current, None)" and "target < current"
  shows "SetupSchema_to target E a d =
           (Some (ErrNew (''latest schema version is v'' @ fmt_d target @ '', found v'' @ fmt_d current)), d)"
  using assms by (simp add: SetupSchema_to_def)

text \<open>
  With the version 5 installed, the target 3 and the adapter's own target 1 are both
  refused, and the database is the same.
\<close>

theorem SetupSchema_rejects_newer_witness:
  "getSchemaVersion ex_adapter (ex_pg_v [1, 2, 3, 4, 5]) = (5, None) \<and> (3::nat) < 5 \<and> schemaVersion < 5 \<and>
   SetupSchema_to 3 ex_env ex_adapter (ex_pg_v [1, 2, 3, 4, 5]) =
     (Some (ErrNew ''latest schema version is v3, found v5''), ex_pg_v [1, 2, 3, 4, 5]) \<and>
   SetupSchema ex_env ex_adapter (ex_pg_v [1, 2, 3, 4, 5]) =
     (Some (ErrNew ''latest schema version is v1, found v5''), ex_pg_v [1, 2, 3, 4, 5])"
proof -
  have g: "getSchemaVersion ex_adapter (ex_pg_v [1, 2, 3, 4, 5]) = (5, None)" by code_simp
  have f: "fmt_d 3 = ''3''" "fmt_d 5 = ''5''" "fmt_d schemaVersion = ''1''" by code_simp+
  have v: "schemaVersion < 5" by (simp add: schemaVersion_def)
  from SetupSchema_rejects_newer [OF g, where target = 3 and E = ex_env]
    SetupSchema_rejects_newer [OF g v, where E = ex_env] g f v
  show ?thesis by (simp add: SetupSchema_def)
qed




text \<open>
  C6. The inserts that \<^verbatim>\<open>Save\<close> issues are, in order, an initial part of the rows of the
  batch: for each transaction in the order of the batch its transaction row, then, for
  each of its events in the order of their index, one attribute row per attribute, which
  holds the hash of the transaction, the type and the index of the event, the name of the
  attribute and the JSON encoding of its value. When \<^verbatim>\<open>Save\<close> succeeds, every value did
  encode, all these rows were inserted, and they are what the tables gained.
\<close>

theorem Save_insert_order:
  assumes "Save E a txs d = (r, d')"
  shows "prefix (inserted (issued d d'))
           (concat (map (\<lambda>tx.
              TxRow \<lparr>col_hash = Hash tx, col_index = Index tx, col_height = Height tx,
                     col_block_time = BlockTime tx\<rparr> #
              concat (map (\<lambda>(i, evt).
                 map (\<lambda>attr. AttrRow \<lparr>col_tx_hash = Hash tx, col_event_type = Type evt,
                                       col_event_index = i, col_name = Key attr,
                                       col_value = json_of E (Value attr)\<rparr>) (Attributes evt))
                 (enumerate 0 (events_of E tx)))) txs)) \<and>
         (r = None \<longrightarrow> encodable E txs \<and> inserted (issued d d') = batch_rows E txs \<and>
            tables d' = persist (batch_rows E txs) (tables d))"
proof -
  have unfold: "batch_rows E txs = concat (map (\<lambda>tx.
              TxRow \<lparr>col_hash = Hash tx, col_index = Index tx, col_height = Height tx,
                     col_block_time = BlockTime tx\<rparr> #
              concat (map (\<lambda>(i, evt).
                 map (\<lambda>attr. AttrRow \<lparr>col_tx_hash = Hash tx, col_event_type = Type evt,
                                       col_event_index = i, col_name = Key attr,
                                       col_value = json_of E (Value attr)\<rparr>) (Attributes evt))
                 (enumerate 0 (events_of E tx)))) txs)"
    by (simp add: batch_rows_def TX_rows_def [abs_def] transaction_row_def
        event_rows_def [abs_def] attribute_row_def [abs_def] case_prod_unfold)
  have "prefix (inserted (issued d d')) (batch_rows E txs) \<and>
         (r = None \<longrightarrow> encodable E txs \<and> inserted (issued d d') = batch_rows E txs \<and>
            tables d' = persist (batch_rows E txs) (tables d))"
    using Save_cases [OF assms(1)]
    by (elim disjE conjE exE) (auto simp: issued_def inserted_append inserted_map)
  then show ?thesis unfolding unfold .
qed

text \<open>
  The rows of a batch of two transactions, the first with two events, as
  \<^verbatim>\<open>Save\<close> inserts them.
\<close>

theorem Save_insert_order_witness:
  "fst (Save ex_env ex_adapter ok_batch ex_pg) = None \<and>
   inserted (issued ex_pg (snd (Save ex_env ex_adapter ok_batch ex_pg))) = batch_rows ex_env ok_batch \<and>
   batch_rows ex_env ok_batch =
     [TxRow \<lparr>col_hash = ''A1'', col_index = 0, col_height = 10, col_block_time = 1650000000\<rparr>,
      AttrRow \<lparr>col_tx_hash = ''A1'', col_event_type = ''message'', col_event_index = 0,
               col_name = ''action'', col_value = [CHR 0x22] @ ''send'' @ [CHR 0x22]\<rparr>,
      AttrRow \<lparr>col_tx_hash = ''A1'', col_event_type = ''transfer'', col_event_index = 1,
               col_name = ''amount'', col_value = ''42''\<rparr>,
      AttrRow \<lparr>col_tx_hash = ''A1'', col_event_type = ''transfer'', col_event_index = 1,
               col_name = ''denom'', col_value = [CHR 0x22] @ ''stake'' @ [CHR 0x22]\<rparr>,
      TxRow \<lparr>col_hash = ''B2'', col_index = 0, col_height = 12, col_block_time = 1650000000\<rparr>]"
proof -
  have e: "fst (Save ex_env ex_adapter ok_batch ex_pg) = None" by code_simp
  have b: "batch_rows ex_env ok_batch =
     [TxRow \<lparr>col_hash = ''A1'', col_index = 0, col_height = 10, col_block_time = 1650000000\<rparr>,
      AttrRow \<lparr>col_tx_hash = ''A1'', col_event_type = ''message'', col_event_index = 0,
               col_name = ''action'', col_value = [CHR 0x22] @ ''send'' @ [CHR 0x22]\<rparr>,
      AttrRow \<lparr>col_tx_hash = ''A1'', col_event_type = ''transfer'', col_event_index = 1,
               col_name = ''amount'', col_value = ''42''\<rparr>,
      AttrRow \<lparr>col_tx_hash = ''A1'', col_event_type = ''transfer'', col_event_index = 1,
               col_name = ''denom'', col_value = [CHR 0x22] @ ''stake'' @ [CHR 0x22]\<rparr>,
      TxRow \<lparr>col_hash = ''B2'', col_index = 0, col_height = 12, col_block_time = 1650000000\<rparr>]"
    by code_simp
  from Save_insert_order [OF prod.collapse [symmetric], where E = ex_env and a = ex_adapter
      and txs = ok_batch and d = ex_pg] e b
  show ?thesis by simp
qed




text \<open>
  C8. The error of a refused transaction row wraps the server's error behind the hash of
  the transaction, and the error of a value that does not encode wraps the cause behind
  the name of the attribute. The error of a refused attribute row does not tell which: it
  wraps the server's error behind a fixed text. Here the attribute \<^verbatim>\<open>text\<close> of the
  transaction \<^verbatim>\<open>C3\<close> is refused, and the message names neither.
\<close>

theorem Save_attribute_insert_error:
  "fst (Save ex_env ex_adapter long_batch ex_pg) =
     Some (ErrWrap ''error saving event attribute: '' (ErrNew ''pq: value too long'')) \<and>
   Error (ErrWrap ''error saving event attribute: '' (ErrNew ''pq: value too long'')) =
     ''error saving event attribute: pq: value too long'' \<and>
   map Hash long_batch = [''C3''] \<and>
   map (\<lambda>evt. map Key (Attributes evt)) (events_of ex_env (hd long_batch)) = [[''text'']]"
  by code_simp



text \<open>
  C10. With a database handle and no row in the transaction table, \<^verbatim>\<open>GetLatestHeight\<close>
  returns the height 0 and an error: \<^verbatim>\<open>MAX\<close> over no rows answers \<^verbatim>\<open>NULL\<close>, which cannot
  be scanned into the integer.
\<close>

theorem GetLatestHeight_empty_store:
  assumes "db a \<noteq> None" and "tx_tab (tables d) = []"
  shows "GetLatestHeight a d = (0, Some Scan_null)"
  using assms
  by (auto simp: GetLatestHeight_def getDB_def Scan_def queryBlockHeight_def split: option.splits)

text \<open>The empty database.\<close>

theorem GetLatestHeight_empty_store_witness:
  "db ex_adapter \<noteq> None \<and> tx_tab (tables ex_pg) = [] \<and>
   GetLatestHeight ex_adapter ex_pg = (0, Some Scan_null)"
proof -
  have h: "db ex_adapter \<noteq> None" "tx_tab (tables ex_pg) = []"
    by (simp_all add: ex_adapter_def ex_pg_def ex_store_def)
  from GetLatestHeight_empty_store [OF h] h show ?thesis by simp
qed

end
